theory Spec2Isabelle
  imports Complex_Main "HOL-Library.Sublist" "HOL-Library.AList"
begin

section \<open>The rule-based ticket analyzer (\<open>app/analyzer/nlp_engine.py\<close>)\<close>

text \<open>
  The analyzer is a pure function of one message. Its strings are Python \<open>str\<close> values;
  here a text is a \<^typ>\<open>string\<close>, each \<^typ>\<open>char\<close> read as one code point in
  U+0000..U+00FF. Categories and priorities are the string literals of the source. The
  confidence is a Python \<open>float\<close>; the model computes it with exact rationals, reading
  each decimal literal of the source (\<open>0.3\<close>, \<open>5.0\<close>, \<open>0.45\<close>, \<open>0.05\<close>) as the
  fraction it denotes. Exceptions of the source (\<open>KeyError\<close> of a dictionary lookup,
  \<open>ValueError\<close> of \<open>max\<close> on an empty iterable) are values of \<open>py_error\<close>.

  Every value the estimator rounds is a whole number of hundredths in exact arithmetic,
  far from the ties of \<open>round(_, 2)\<close> at odd multiples of 0.005; the binary rounding
  error of the doubles themselves is not part of the model.

  The general theorems below never unfold \<open>normalize_text\<close>: they hold for the normalized
  text whatever it is, and only the evaluations at concrete messages compute it.
\<close>

subsection \<open>Keyword tables\<close>

definition CATEGORY_KEYWORDS :: "(string \<times> string list) list" where
  "CATEGORY_KEYWORDS =
    [(''Billing'',   [''payment'', ''refund'', ''invoice'', ''charge'', ''billing'',
                      ''money back'', ''subscription'', ''pricing'', ''receipt'']),
     (''Technical'', [''error'', ''bug'', ''crash'', ''not working'', ''broken'',
                      ''failed'', ''glitch'', ''outage'', ''slow'', ''timeout'',
                      ''exception'']),
     (''Account'',   [''login'', ''password'', ''account locked'', ''account'',
                      ''sign in'', ''signup'', ''register'', ''locked out'',
                      ''two factor'', ''2fa'', ''authentication'']),
     (''Feature'',   [''request'', ''feature'', ''add option'', ''enhancement'',
                      ''suggestion'', ''wishlist'', ''improve'', ''would like''])]"

definition URGENCY_KEYWORDS :: "string list" where
  "URGENCY_KEYWORDS =
    [''urgent'', ''asap'', ''immediately'', ''down'', ''critical'',
     ''emergency'', ''right now'', ''escalate'', ''blocked'']"

definition P0_KEYWORDS :: "string list" where
  "P0_KEYWORDS = [''system down'', ''security breach'', ''data loss'', ''outage'']"

definition P1_KEYWORDS :: "string list" where
  "P1_KEYWORDS = [''urgent'', ''critical'', ''immediately'', ''asap'']"

definition CUSTOM_BILLING_TRIGGERS :: "string list" where
  "CUSTOM_BILLING_TRIGGERS = [''refund'', ''money back'']"

subsection \<open>The result record\<close>

text \<open>The field \<open>keywords\<close> of the source is \<open>result_keywords\<close> here.\<close>

record AnalysisResult =
  category :: string
  priority :: string
  urgency :: bool
  result_keywords :: "string list"
  confidence :: rat

subsection \<open>Python primitives used by the analyzer\<close>

datatype py_error = KeyError | ValueError

text \<open>\<open>kw in s\<close> on strings: \<open>kw\<close> occurs in \<open>s\<close> as a contiguous substring.\<close>

definition contains :: "string \<Rightarrow> string \<Rightarrow> bool" where
  "contains kw s = sublist kw s"

text \<open>
  \<open>str.isspace\<close> for one code point below 256: the characters that both \<open>str.strip()\<close>
  and the pattern \<open>\s\<close> treat as whitespace.
\<close>

definition is_space :: "char \<Rightarrow> bool" where
  "is_space c =
    (let n = (of_char c :: nat)
     in (9 \<le> n \<and> n \<le> 13) \<or> (28 \<le> n \<and> n \<le> 32) \<or> n = 133 \<or> n = 160)"

text \<open>\<open>str.lower\<close> for one code point below 256 (A-Z, and the Latin-1 capitals but U+00D7).\<close>

definition lower_char :: "char \<Rightarrow> char" where
  "lower_char c =
    (let n = (of_char c :: nat)
     in if (65 \<le> n \<and> n \<le> 90) \<or> (192 \<le> n \<and> n \<le> 222 \<and> n \<noteq> 215)
        then char_of (n + 32) else c)"

definition lower :: "string \<Rightarrow> string" where
  "lower s = map lower_char s"

definition strip :: "string \<Rightarrow> string" where
  "strip s = rev (dropWhile is_space (rev (dropWhile is_space s)))"

text \<open>\<open>re.sub(r"\s+", " ", s)\<close>: every maximal run of whitespace becomes one space.\<close>

function collapse_spaces :: "string \<Rightarrow> string" where
  "collapse_spaces [] = []"
| "collapse_spaces (c # cs) =
    (if is_space c then CHR '' '' # collapse_spaces (dropWhile is_space cs)
     else c # collapse_spaces cs)"
  by pat_completeness auto
termination
  by (relation "measure length") (auto simp: length_dropWhile_le less_Suc_eq_le)

text \<open>\<open>_normalize\<close>: lowercase, strip, collapse whitespace.\<close>

definition normalize_text :: "string \<Rightarrow> string" where
  "normalize_text text = collapse_spaces (strip (lower text))"

text \<open>
  A \<open>dict\<close> keeps its keys in insertion order: an association list, where storing under
  a key replaces the value in place or appends the pair (\<open>AList.update\<close>). A lookup of a
  missing key raises \<open>KeyError\<close>.
\<close>

definition getitem :: "('k \<times> 'v) list \<Rightarrow> 'k \<Rightarrow> py_error + 'v" where
  "getitem d k = (case map_of d k of None \<Rightarrow> Inl KeyError | Some v \<Rightarrow> Inr v)"

definition dict_keys :: "('k \<times> 'v) list \<Rightarrow> 'k list" where
  "dict_keys d = map fst d"

text \<open>\<open>dict.fromkeys(xs)\<close>: the keys of \<open>xs\<close> in order of first occurrence, each with \<open>None\<close>.\<close>

definition dict_fromkeys :: "'k list \<Rightarrow> ('k \<times> unit) list" where
  "dict_fromkeys xs = fold (\<lambda>k d. AList.update k () d) xs []"

text \<open>
  \<open>max(iterable, key=f)\<close>: the first item is the candidate; a later item replaces it
  only when its key is strictly greater. An empty iterable raises \<open>ValueError\<close>, and an
  exception of the key function is passed on.
\<close>

fun max_loop :: "('a \<Rightarrow> py_error + nat) \<Rightarrow> 'a \<Rightarrow> nat \<Rightarrow> 'a list \<Rightarrow> py_error + 'a" where
  "max_loop key maxitem maxval [] = Inr maxitem"
| "max_loop key maxitem maxval (item # items) =
    (case key item of
       Inl e \<Rightarrow> Inl e
     | Inr val \<Rightarrow> if val > maxval then max_loop key item val items
                  else max_loop key maxitem maxval items)"

fun py_max :: "('a \<Rightarrow> py_error + nat) \<Rightarrow> 'a list \<Rightarrow> py_error + 'a" where
  "py_max key [] = Inl ValueError"
| "py_max key (item # items) =
    (case key item of Inl e \<Rightarrow> Inl e | Inr val \<Rightarrow> max_loop key item val items)"

text \<open>
  \<open>round(x, 2)\<close>: the nearest multiple of 1/100, a tie going to the even one.
\<close>

definition py_round2 :: "rat \<Rightarrow> rat" where
  "py_round2 x =
    (let y = x * 100; f = \<lfloor>y\<rfloor>; d = y - of_int f
     in of_int (if d < 1 / 2 then f
                else if d > 1 / 2 then f + 1
                else if even f then f else f + 1) / 100)"

subsection \<open>Core analysis functions\<close>

text \<open>The comprehension \<open>[kw for kw in kws if kw in normalized]\<close>.\<close>

definition matched_keywords :: "string list \<Rightarrow> string \<Rightarrow> string list" where
  "matched_keywords kws normalized = filter (\<lambda>kw. contains kw normalized) kws"

definition category_scores :: "string \<Rightarrow> (string \<times> string list) list" where
  "category_scores normalized =
    fold (\<lambda>(category, kws) scores.
            let matched = matched_keywords kws normalized
            in if matched \<noteq> [] then AList.update category matched scores else scores)
         CATEGORY_KEYWORDS []"

definition classify_category :: "string \<Rightarrow> py_error + (string \<times> string list)" where
  "classify_category text =
    (let normalized = normalize_text text;
         scores = category_scores normalized
     in if scores = [] then Inr (''Other'', [])
        else
          (case py_max (\<lambda>c. map_sum id length (getitem scores c)) (dict_keys scores) of
             Inl e \<Rightarrow> Inl e
           | Inr best \<Rightarrow>
               (case getitem scores best of
                  Inl e \<Rightarrow> Inl e
                | Inr matched \<Rightarrow> Inr (best, matched))))"

definition detect_urgency :: "string \<Rightarrow> bool \<times> string list" where
  "detect_urgency text =
    (let normalized = normalize_text text;
         matched = matched_keywords URGENCY_KEYWORDS normalized
     in (matched \<noteq> [], matched))"

definition determine_priority :: "string \<Rightarrow> string \<Rightarrow> bool \<Rightarrow> string" where
  "determine_priority text cat is_urgent =
    (let normalized = normalize_text text
     in if list_ex (\<lambda>kw. contains kw normalized) P0_KEYWORDS then ''P0''
        else if is_urgent \<or> list_ex (\<lambda>kw. contains kw normalized) P1_KEYWORDS then ''P1''
        else if cat \<in> set [''Billing'', ''Technical'', ''Account''] then ''P2''
        else ''P3'')"

definition calculate_confidence :: "string list \<Rightarrow> string list \<Rightarrow> string \<Rightarrow> rat" where
  "calculate_confidence matched_kws urgency_kws cat =
    (let total_matches = length matched_kws + length urgency_kws
     in if total_matches = 0 then 3 / 10
        else
          (let raw = min (of_nat total_matches / 5) 1;
               base = 1 / 2 + raw * (45 / 100);
               base = (if cat \<noteq> ''Other'' then min (base + 5 / 100) 1 else base)
           in py_round2 base))"

text \<open>
  The override mutates the result it is given; the model returns the updated record.
\<close>

definition apply_custom_rules :: "string \<Rightarrow> AnalysisResult \<Rightarrow> AnalysisResult" where
  "apply_custom_rules text result =
    (let normalized = normalize_text text
     in if list_ex (\<lambda>trigger. contains trigger normalized) CUSTOM_BILLING_TRIGGERS
        then
          (let result = result\<lparr>category := ''Billing''\<rparr>;
               result = (if priority result \<notin> set [''P0'']
                         then result\<lparr>priority := ''P1''\<rparr> else result)
           in fold (\<lambda>trigger result.
                      if contains trigger normalized \<and> trigger \<notin> set (result_keywords result)
                      then result\<lparr>result_keywords := result_keywords result @ [trigger]\<rparr>
                      else result)
                   CUSTOM_BILLING_TRIGGERS result)
        else result)"

subsection \<open>Public API\<close>

definition analyze_ticket :: "string \<Rightarrow> py_error + AnalysisResult" where
  "analyze_ticket message =
    (case classify_category message of
       Inl e \<Rightarrow> Inl e
     | Inr (cat, cat_keywords) \<Rightarrow>
         (let (is_urgent, urg_keywords) = detect_urgency message;
              prio = determine_priority message cat is_urgent;
              all_keywords = dict_keys (dict_fromkeys (cat_keywords @ urg_keywords));
              conf = calculate_confidence cat_keywords urg_keywords cat;
              result = \<lparr>category = cat, priority = prio, urgency = is_urgent,
                        result_keywords = all_keywords, confidence = conf\<rparr>
          in Inr (apply_custom_rules message result)))"

section \<open>Properties\<close>

subsection \<open>The first maximum of \<open>max\<close> and the score table\<close>

lemma max_loop_first_max:
  assumes "\<forall>y\<in>set ys. key y = Inr (f y)"
  shows "\<exists>r pre post. max_loop key b (f b) ys = Inr r \<and> b # ys = pre @ r # post
           \<and> (\<forall>y\<in>set pre. f y < f r) \<and> (\<forall>y\<in>set post. f y \<le> f r)"
  using assms
proof (induction ys arbitrary: b)
  case Nil
  show ?case by (rule_tac x=b in exI, rule_tac x="[]" in exI) simp
next
  case (Cons y ys)
  have ky: "key y = Inr (f y)" and rest: "\<forall>z\<in>set ys. key z = Inr (f z)"
    using Cons.prems by simp_all
  show ?case
  proof (cases "f y > f b")
    case True
    from Cons.IH[OF rest, of y] obtain r pre post where
      r: "max_loop key y (f y) ys = Inr r" and split: "y # ys = pre @ r # post"
      and lt: "\<forall>z\<in>set pre. f z < f r" and le: "\<forall>z\<in>set post. f z \<le> f r"
      by blast
    have "y \<in> set (pre @ r # post)" using split by (metis list.set_intros(1))
    then have "f y \<le> f r" using lt le by (auto simp: less_imp_le)
    with True have "f b < f r" by simp
    with r split[symmetric] lt le ky True show ?thesis
      by (rule_tac x="r" in exI, rule_tac x="b # pre" in exI, rule_tac x="post" in exI) simp
  next
    case False
    from Cons.IH[OF rest, of b] obtain r pre post where
      r: "max_loop key b (f b) ys = Inr r" and split: "b # ys = pre @ r # post"
      and lt: "\<forall>z\<in>set pre. f z < f r" and le: "\<forall>z\<in>set post. f z \<le> f r"
      by blast
    show ?thesis
    proof (cases pre)
      case Nil
      with split have "r = b" "post = ys" by simp_all
      with r le ky False show ?thesis
        by (rule_tac x="b" in exI, rule_tac x="[]" in exI, rule_tac x="y # ys" in exI) simp
    next
      case (Cons p pre')
      with split have p: "p = b" and ys: "ys = pre' @ r # post" by simp_all
      have "f b < f r" using lt Cons p by simp
      with False have "f y < f r" by simp
      with r ys lt le ky False Cons p show ?thesis
        by (rule_tac x="r" in exI, rule_tac x="b # y # pre'" in exI, rule_tac x="post" in exI) simp
    qed
  qed
qed

lemma py_max_first_max:
  assumes "xs \<noteq> []" and "\<forall>y\<in>set xs. key y = Inr (f y)"
  shows "\<exists>r pre post. py_max key xs = Inr r \<and> xs = pre @ r # post
           \<and> (\<forall>y\<in>set pre. f y < f r) \<and> (\<forall>y\<in>set post. f y \<le> f r)"
proof -
  from assms(1) obtain x xs' where xs: "xs = x # xs'" by (cases xs) auto
  with assms(2) have kx: "key x = Inr (f x)" and rest: "\<forall>y\<in>set xs'. key y = Inr (f y)"
    by simp_all
  from max_loop_first_max[OF rest, of x] kx xs show ?thesis by simp
qed

lemma update_fresh: "k \<notin> fst ` set d \<Longrightarrow> AList.update k v d = d @ [(k, v)]"
  by (induction d) auto

lemma keys_filter_split:
  "map fst (filter P S) = pre' @ b # post' \<Longrightarrow>
   \<exists>pre m post. S = pre @ (b, m) # post \<and> P (b, m)
      \<and> map fst (filter P pre) = pre' \<and> map fst (filter P post) = post'"
proof (induction S arbitrary: pre')
  case Nil
  then show ?case by simp
next
  case (Cons s S)
  show ?case
  proof (cases "P s")
    case False
    with Cons.prems have "map fst (filter P S) = pre' @ b # post'" by simp
    from Cons.IH[OF this] obtain pre m post where
      "S = pre @ (b, m) # post" "P (b, m)" "map fst (filter P pre) = pre'"
      "map fst (filter P post) = post'" by blast
    with False show ?thesis
      by (rule_tac x="s # pre" in exI, rule_tac x="m" in exI, rule_tac x="post" in exI) simp
  next
    case True
    show ?thesis
    proof (cases pre')
      case Nil
      with True Cons.prems have "fst s = b" "map fst (filter P S) = post'" by simp_all
      with True Nil show ?thesis
        by (rule_tac x="[]" in exI, rule_tac x="snd s" in exI, rule_tac x="S" in exI) auto
    next
      case (Cons p pre'')
      with True Cons.prems have p: "p = fst s" and "map fst (filter P S) = pre'' @ b # post'"
        by simp_all
      from Cons.IH[OF this(2)] obtain pre m post where
        "S = pre @ (b, m) # post" "P (b, m)" "map fst (filter P pre) = pre''"
        "map fst (filter P post) = post'" by blast
      with True Cons p show ?thesis
        by (rule_tac x="s # pre" in exI, rule_tac x="m" in exI, rule_tac x="post" in exI) simp
    qed
  qed
qed

lemma fold_scores_filter:
  assumes "distinct (map fst kvs)" and "fst ` set acc \<inter> fst ` set kvs = {}"
  shows "fold (\<lambda>(category, kws) scores.
            let matched = matched_keywords kws normalized
            in if matched \<noteq> [] then AList.update category matched scores else scores)
         kvs acc
       = acc @ filter (\<lambda>(c, m). m \<noteq> [])
                 (map (\<lambda>(c, kws). (c, matched_keywords kws normalized)) kvs)"
  using assms
proof (induction kvs arbitrary: acc)
  case Nil
  show ?case by simp
next
  case (Cons kv kvs)
  obtain c kws where kv: "kv = (c, kws)" by (cases kv)
  from Cons.prems kv have fresh: "c \<notin> fst ` set acc" and d: "distinct (map fst kvs)"
    and c: "c \<notin> fst ` set kvs" and disj: "fst ` set acc \<inter> fst ` set kvs = {}"
    by auto
  show ?case
  proof (cases "matched_keywords kws normalized = []")
    case True
    with Cons.IH[OF d disj] kv show ?thesis by simp
  next
    case False
    have "fst ` set (acc @ [(c, matched_keywords kws normalized)]) \<inter> fst ` set kvs = {}"
      using disj c by auto
    from Cons.IH[OF d this] False kv fresh show ?thesis
      by (simp add: update_fresh)
  qed
qed

lemma category_scores_filter:
  "category_scores normalized =
     filter (\<lambda>(c, m). m \<noteq> [])
       (map (\<lambda>(c, kws). (c, matched_keywords kws normalized)) CATEGORY_KEYWORDS)"
proof -
  have "distinct (map fst CATEGORY_KEYWORDS)" by (simp add: CATEGORY_KEYWORDS_def)
  from fold_scores_filter[OF this, of "[]" normalized] show ?thesis
    by (simp add: category_scores_def)
qed


lemma classify_category_cases:
  fixes message :: string
  defines "n \<equiv> normalize_text message"
  shows "(\<forall>(c, kws)\<in>set CATEGORY_KEYWORDS. matched_keywords kws n = [])
           \<and> classify_category message = Inr (''Other'', [])
       \<or> (\<exists>pre c kws post.
             CATEGORY_KEYWORDS = pre @ (c, kws) # post
           \<and> matched_keywords kws n \<noteq> []
           \<and> classify_category message = Inr (c, matched_keywords kws n)
           \<and> (\<forall>(c', k')\<in>set pre. length (matched_keywords k' n) < length (matched_keywords kws n))
           \<and> (\<forall>(c', k')\<in>set post. length (matched_keywords k' n) \<le> length (matched_keywords kws n)))"
proof -
  define g where "g = (\<lambda>(c :: string, kws). (c, matched_keywords kws n))"
  define P where "P = (\<lambda>(c :: string, m :: string list). m \<noteq> [])"
  define S where "S = map g CATEGORY_KEYWORDS"
  define scores where "scores = category_scores n"
  define f where "f = (\<lambda>c. case map_of scores c of Some m \<Rightarrow> length m | None \<Rightarrow> 0)"
  have scores: "scores = filter P S"
    unfolding scores_def S_def g_def P_def by (rule category_scores_filter)
  have keysS: "map fst S = map fst CATEGORY_KEYWORDS"
    by (simp add: S_def g_def case_prod_unfold)
  have "distinct (map fst CATEGORY_KEYWORDS)" by (simp add: CATEGORY_KEYWORDS_def)
  then have dist: "distinct (map fst scores)"
    unfolding scores keysS[symmetric] by (rule distinct_map_filter)
  have look: "map_of scores c = Some m" if "(c, m) \<in> set scores" for c m
    using that dist by (rule map_of_is_SomeI[rotated])
  show ?thesis
  proof (cases "scores = []")
    case True
    then have "\<forall>s\<in>set S. \<not> P s" unfolding scores by (simp add: filter_empty_conv)
    then have "\<forall>(c, kws)\<in>set CATEGORY_KEYWORDS. matched_keywords kws n = []"
      by (auto simp: S_def g_def P_def)
    moreover have "classify_category message = Inr (''Other'', [])"
      using True by (simp add: classify_category_def scores_def n_def)
    ultimately show ?thesis by blast
  next
    case False
    then have ne: "dict_keys scores \<noteq> []" by (simp add: dict_keys_def)
    have key: "\<forall>c\<in>set (dict_keys scores).
                 map_sum id length (getitem scores c) = Inr (f c)"
    proof
      fix c assume "c \<in> set (dict_keys scores)"
      then obtain m where "(c, m) \<in> set scores" by (auto simp: dict_keys_def)
      then have "map_of scores c = Some m" by (rule look)
      then show "map_sum id length (getitem scores c) = Inr (f c)"
        by (simp add: getitem_def f_def)
    qed
    from py_max_first_max[OF ne key] obtain r pre' post' where
      mx: "py_max (\<lambda>c. map_sum id length (getitem scores c)) (dict_keys scores) = Inr r"
      and ks: "dict_keys scores = pre' @ r # post'"
      and lt: "\<forall>c\<in>set pre'. f c < f r" and le: "\<forall>c\<in>set post'. f c \<le> f r"
      by blast
    from ks have "map fst (filter P S) = pre' @ r # post'"
      by (simp add: dict_keys_def scores)
    from keys_filter_split[OF this] obtain pre m post where
      S: "S = pre @ (r, m) # post" and Pm: "P (r, m)"
      and pre': "map fst (filter P pre) = pre'" and post': "map fst (filter P post) = post'"
      by blast
    from S obtain pre0 kws post0 where
      CK: "CATEGORY_KEYWORDS = pre0 @ (r, kws) # post0"
      and pre: "pre = map g pre0" and m: "m = matched_keywords kws n"
      and post: "post = map g post0"
      unfolding S_def by (auto simp: map_eq_append_conv map_eq_Cons_conv g_def)
    have mne: "m \<noteq> []" using Pm by (simp add: P_def)
    have "(r, m) \<in> set scores" using S Pm by (simp add: scores)
    then have lr: "map_of scores r = Some m" by (rule look)
    then have fr: "f r = length m" by (simp add: f_def)
    have cls: "classify_category message = Inr (r, m)"
      using False mx lr
      by (simp add: classify_category_def scores_def[symmetric] n_def[symmetric] getitem_def)
    have fin: "f c' = length (matched_keywords k' n)"
      if "(c', k') \<in> set (pre0 @ post0)" and "matched_keywords k' n \<noteq> []" for c' k'
    proof -
      have "(c', matched_keywords k' n) \<in> set S"
        using that(1) S pre post by (auto simp: g_def)
      then have "(c', matched_keywords k' n) \<in> set scores"
        using that(2) by (simp add: scores P_def)
      then show ?thesis using look by (simp add: f_def)
    qed
    have A: "\<forall>(c', k')\<in>set pre0. length (matched_keywords k' n) < length m"
    proof (clarify)
      fix c' k' assume in0: "(c', k') \<in> set pre0"
      show "length (matched_keywords k' n) < length m"
      proof (cases "matched_keywords k' n = []")
        case True
        with mne show ?thesis by simp
      next
        case ne': False
        have "g (c', k') \<in> set (filter P pre)"
          using in0 ne' by (auto simp: pre g_def P_def)
        then have "c' \<in> set pre'" unfolding pre'[symmetric] by (force simp: g_def)
        then have "f c' < f r" using lt by blast
        with fin[of c' k'] in0 ne' fr show ?thesis by simp
      qed
    qed
    have B: "\<forall>(c', k')\<in>set post0. length (matched_keywords k' n) \<le> length m"
    proof (clarify)
      fix c' k' assume in0: "(c', k') \<in> set post0"
      show "length (matched_keywords k' n) \<le> length m"
      proof (cases "matched_keywords k' n = []")
        case True
        then show ?thesis by simp
      next
        case ne': False
        have "g (c', k') \<in> set (filter P post)"
          using in0 ne' by (auto simp: post g_def P_def)
        then have "c' \<in> set post'" unfolding post'[symmetric] by (force simp: g_def)
        then have "f c' \<le> f r" using le by blast
        with fin[of c' k'] in0 ne' fr show ?thesis by simp
      qed
    qed
    from CK mne cls A B show ?thesis unfolding m by blast
  qed
qed

subsection \<open>Rounding and the closed form of the confidence\<close>

lemma py_round2_hundredths: "py_round2 (of_int k / 100) = of_int k / 100"
  by (simp add: py_round2_def Let_def)

lemma confidence_closed_form:
  assumes "0 < length mk + length uk"
  shows "calculate_confidence mk uk cat =
           of_int (9 * int (min (length mk + length uk) 5) + (if cat \<noteq> ''Other'' then 55 else 50)) / 100"
proof -
  define t where "t = length mk + length uk"
  have base: "1 / 2 + min (of_nat t / 5) 1 * (45 / 100) = (of_int (9 * int (min t 5) + 50) / 100 :: rat)"
  proof (cases "t < 5")
    case True
    then have "min (of_nat t / 5) (1::rat) = of_nat t / 5" by (simp add: min_def)
    moreover have "min t 5 = t" using True by simp
    ultimately show ?thesis by (simp add: field_simps)
  next
    case False
    then have "min (of_nat t / 5) (1::rat) = 1" by (simp add: min_def)
    moreover have "min t 5 = 5" using False by simp
    ultimately show ?thesis by simp
  qed
  have boost: "min (of_int (9 * int (min t 5) + 50) / 100 + 5 / 100) (1::rat)
             = of_int (9 * int (min t 5) + 55) / 100"
  proof -
    have eq: "(of_int (9 * int (min t 5) + 50) / 100 + 5 / 100 :: rat)
                = of_int (9 * int (min t 5) + 55) / 100"
      by simp
    have "9 * int (min t 5) + 55 \<le> 100" by simp
    then have "(of_int (9 * int (min t 5) + 55) :: rat) \<le> of_int 100"
      by (simp only: of_int_le_iff)
    then have "(of_int (9 * int (min t 5) + 55) / 100 :: rat) \<le> 1" by simp
    then have "min (of_int (9 * int (min t 5) + 55) / 100) (1::rat)
                 = of_int (9 * int (min t 5) + 55) / 100"
      by (rule min_absorb1)
    then show ?thesis by (simp only: eq)
  qed
  show ?thesis
    using assms
    unfolding calculate_confidence_def Let_def t_def[symmetric]
    by (simp only: base boost py_round2_hundredths if_distrib[of py_round2] split: if_splits) simp
qed

subsection \<open>The confidence estimator\<close>

lemma confidence_no_match:
  "length mk + length uk = 0 \<Longrightarrow> calculate_confidence mk uk cat = 3 / 10"
  by (simp add: calculate_confidence_def)

text \<open>
  Claim C4. \<open>calculate_confidence\<close> returns exactly 0.3 when the category-matched and the
  urgency-matched lists hold no item together; otherwise it returns \<open>round(base, 2)\<close>
  with \<open>base = 0.5 + min(total / 5.0, 1.0) * 0.45\<close>, where 0.05 is added and the sum
  capped at 1.0 before rounding when the category is not \<open>"Other"\<close>.
\<close>

theorem calculate_confidence_formula:
  "calculate_confidence matched_kws urgency_kws cat =
     (if length matched_kws + length urgency_kws = 0 then 3 / 10
      else py_round2
             (if cat \<noteq> ''Other''
              then min (1 / 2 + min (of_nat (length matched_kws + length urgency_kws) / 5) 1 * (45 / 100)
                        + 5 / 100) 1
              else 1 / 2 + min (of_nat (length matched_kws + length urgency_kws) / 5) 1 * (45 / 100)))"
  by (simp add: calculate_confidence_def Let_def)

theorem calculate_confidence_formula_witness:
  "calculate_confidence [] [] ''Other'' = 3 / 10
   \<and> calculate_confidence [''payment''] [''urgent''] ''Billing'' = 73 / 100
   \<and> calculate_confidence [''payment''] [] ''Other'' = 59 / 100"
proof (intro conjI)
  show "calculate_confidence [] [] ''Other'' = 3 / 10"
    using calculate_confidence_formula[of "[]" "[]" "''Other''"] by simp
  show "calculate_confidence [''payment''] [''urgent''] ''Billing'' = 73 / 100"
    using calculate_confidence_formula[of "[''payment'']" "[''urgent'']" "''Billing''"]
    by (simp add: py_round2_def Let_def)
  show "calculate_confidence [''payment''] [] ''Other'' = 59 / 100"
    using calculate_confidence_formula[of "[''payment'']" "[]" "''Other''"]
    by (simp add: py_round2_def Let_def)
qed

text \<open>
  Claim C6. For a fixed category, \<open>calculate_confidence\<close> is monotone in the total number
  of matched items: a total that is at least as large gives a score at least as large.
\<close>

theorem calculate_confidence_monotone:
  assumes "length mk + length uk \<le> length mk' + length uk'"
  shows "calculate_confidence mk uk cat \<le> calculate_confidence mk' uk' cat"
proof (cases "length mk + length uk = 0")
  case True
  note zero = this
  show ?thesis
  proof (cases "length mk' + length uk' = 0")
    case True
    with zero show ?thesis by (simp add: confidence_no_match)
  next
    case False
    then have pos: "0 < length mk' + length uk'" by simp
    have "(30::int) \<le> 9 * int (min (length mk' + length uk') 5) + (if cat \<noteq> ''Other'' then 55 else 50)"
      by simp
    then have "(of_int 30 :: rat) \<le> of_int (9 * int (min (length mk' + length uk') 5) + (if cat \<noteq> ''Other'' then 55 else 50))"
      by (simp only: of_int_le_iff)
    then have "(3 / 10 :: rat) \<le> of_int (9 * int (min (length mk' + length uk') 5) + (if cat \<noteq> ''Other'' then 55 else 50)) / 100"
      by simp
    then show ?thesis
      by (simp only: confidence_no_match[OF zero] confidence_closed_form[OF pos])
  qed
next
  case False
  then have pos: "0 < length mk + length uk" by simp
  with assms have pos': "0 < length mk' + length uk'" by linarith
  have "9 * int (min (length mk + length uk) 5) + (if cat \<noteq> ''Other'' then 55 else 50)
        \<le> 9 * int (min (length mk' + length uk') 5) + (if cat \<noteq> ''Other'' then 55 else 50)"
    using assms by simp
  then have "(of_int (9 * int (min (length mk + length uk) 5) + (if cat \<noteq> ''Other'' then 55 else 50)) :: rat)
        \<le> of_int (9 * int (min (length mk' + length uk') 5) + (if cat \<noteq> ''Other'' then 55 else 50))"
    by (simp only: of_int_le_iff)
  then show ?thesis
    by (simp only: confidence_closed_form[OF pos] confidence_closed_form[OF pos'] divide_right_mono)
qed

theorem calculate_confidence_monotone_witness:
  "length [''payment''] + length ([] :: string list)
     \<le> length [''payment'', ''invoice'', ''charge''] + length [''urgent'']
   \<and> calculate_confidence [''payment''] [] ''Billing''
     \<le> calculate_confidence [''payment'', ''invoice'', ''charge''] [''urgent''] ''Billing''
   \<and> calculate_confidence [''payment''] [] ''Billing'' = 64 / 100
   \<and> calculate_confidence [''payment'', ''invoice'', ''charge''] [''urgent''] ''Billing'' = 91 / 100"
proof -
  have h: "length [''payment''] + length ([] :: string list)
     \<le> length [''payment'', ''invoice'', ''charge''] + length [''urgent'']" by simp
  have a: "calculate_confidence [''payment''] [] ''Billing'' = 64 / 100"
    by (simp add: calculate_confidence_def py_round2_def Let_def)
  have b: "calculate_confidence [''payment'', ''invoice'', ''charge''] [''urgent''] ''Billing'' = 91 / 100"
    by (simp add: calculate_confidence_def py_round2_def Let_def)
  from h calculate_confidence_monotone[OF h, of "''Billing''"] a b show ?thesis by blast
qed

subsection \<open>The override rule, field by field\<close>

lemma custom_rules_urgency: "urgency (apply_custom_rules message res) = urgency res"
  by (simp add: apply_custom_rules_def CUSTOM_BILLING_TRIGGERS_def Let_def)

lemma custom_rules_confidence: "confidence (apply_custom_rules message res) = confidence res"
  by (simp add: apply_custom_rules_def CUSTOM_BILLING_TRIGGERS_def Let_def)

lemma custom_rules_category:
  "category (apply_custom_rules message res) =
     (if contains ''refund'' (normalize_text message) \<or> contains ''money back'' (normalize_text message)
      then ''Billing'' else category res)"
  by (simp add: apply_custom_rules_def CUSTOM_BILLING_TRIGGERS_def Let_def)

lemma custom_rules_priority:
  "priority (apply_custom_rules message res) =
     (if contains ''refund'' (normalize_text message) \<or> contains ''money back'' (normalize_text message)
      then (if priority res = ''P0'' then ''P0'' else ''P1'')
      else priority res)"
  by (simp add: apply_custom_rules_def CUSTOM_BILLING_TRIGGERS_def Let_def)

lemma custom_rules_keywords:
  "result_keywords (apply_custom_rules message res) =
     result_keywords res @
     filter (\<lambda>trigger. contains trigger (normalize_text message) \<and> trigger \<notin> set (result_keywords res))
       CUSTOM_BILLING_TRIGGERS"
  by (simp add: apply_custom_rules_def CUSTOM_BILLING_TRIGGERS_def Let_def)

subsection \<open>The pipeline never raises\<close>

lemma classify_category_total: "\<exists>c ms. classify_category message = Inr (c, ms)"
  using classify_category_cases[of message] by blast

lemma classify_category_result:
  assumes "classify_category message = Inr (c, ms)"
  shows "(c = ''Other'' \<and> ms = [])
       \<or> (\<exists>kws. (c, kws) \<in> set CATEGORY_KEYWORDS
             \<and> ms = matched_keywords kws (normalize_text message) \<and> ms \<noteq> [])"
proof -
  from classify_category_cases[of message] consider
    (other) "classify_category message = Inr (''Other'', [])"
  | (best) pre c' kws post where "CATEGORY_KEYWORDS = pre @ (c', kws) # post"
      "matched_keywords kws (normalize_text message) \<noteq> []"
      "classify_category message = Inr (c', matched_keywords kws (normalize_text message))"
    by blast
  then show ?thesis
  proof cases
    case other
    with assms show ?thesis by simp
  next
    case best
    have "(c', kws) \<in> set CATEGORY_KEYWORDS" by (simp add: best(1))
    moreover from best(3) assms have "c = c'" "ms = matched_keywords kws (normalize_text message)"
      by simp_all
    ultimately show ?thesis using best(2) by blast
  qed
qed

lemma analyze_ticket_unfold:
  assumes "classify_category message = Inr (c, ms)"
  shows "analyze_ticket message =
     Inr (apply_custom_rules message
            \<lparr>category = c,
             priority = determine_priority message c (fst (detect_urgency message)),
             urgency = fst (detect_urgency message),
             result_keywords = dict_keys (dict_fromkeys (ms @ snd (detect_urgency message))),
             confidence = calculate_confidence ms (snd (detect_urgency message)) c\<rparr>)"
  using assms by (simp add: analyze_ticket_def Let_def case_prod_unfold)

subsection \<open>The priority resolver\<close>

lemma determine_priority_cases:
  "determine_priority message cat is_urgent =
     (if contains ''system down'' (normalize_text message)
         \<or> contains ''security breach'' (normalize_text message)
         \<or> contains ''data loss'' (normalize_text message)
         \<or> contains ''outage'' (normalize_text message) then ''P0''
      else if is_urgent
         \<or> contains ''urgent'' (normalize_text message)
         \<or> contains ''critical'' (normalize_text message)
         \<or> contains ''immediately'' (normalize_text message)
         \<or> contains ''asap'' (normalize_text message) then ''P1''
      else if cat = ''Billing'' \<or> cat = ''Technical'' \<or> cat = ''Account'' then ''P2''
      else ''P3'')"
  by (simp add: determine_priority_def P0_KEYWORDS_def P1_KEYWORDS_def Let_def)

text \<open>
  Claim C3. \<open>determine_priority\<close> returns exactly one of P0, P1, P2, P3 by first match:
  P0 if the normalized text contains one of "system down", "security breach", "data loss",
  "outage"; else P1 if \<open>is_urgent\<close> holds or the text contains one of "urgent",
  "critical", "immediately", "asap"; else P2 if the category is Billing, Technical or
  Account; else P3. The category never decides between P0, P1 and the rest: whether the
  result is P0, and whether it is P1, is the same for any two categories; with category
  "Other", a text containing "outage" gives P0.
\<close>

theorem determine_priority_precedence:
  "determine_priority message cat is_urgent =
     (if contains ''system down'' (normalize_text message)
         \<or> contains ''security breach'' (normalize_text message)
         \<or> contains ''data loss'' (normalize_text message)
         \<or> contains ''outage'' (normalize_text message) then ''P0''
      else if is_urgent
         \<or> contains ''urgent'' (normalize_text message)
         \<or> contains ''critical'' (normalize_text message)
         \<or> contains ''immediately'' (normalize_text message)
         \<or> contains ''asap'' (normalize_text message) then ''P1''
      else if cat = ''Billing'' \<or> cat = ''Technical'' \<or> cat = ''Account'' then ''P2''
      else ''P3'')
   \<and> determine_priority message cat is_urgent \<in> {''P0'', ''P1'', ''P2'', ''P3''}
   \<and> (determine_priority message cat is_urgent = ''P0''
        \<longleftrightarrow> determine_priority message cat' is_urgent = ''P0'')
   \<and> (determine_priority message cat is_urgent = ''P1''
        \<longleftrightarrow> determine_priority message cat' is_urgent = ''P1'')
   \<and> (contains ''outage'' (normalize_text message)
        \<longrightarrow> determine_priority message ''Other'' is_urgent = ''P0'')"
proof (intro conjI)
  show "determine_priority message cat is_urgent \<in> {''P0'', ''P1'', ''P2'', ''P3''}"
    by (simp add: determine_priority_cases)
  show "determine_priority message cat is_urgent = ''P0''
        \<longleftrightarrow> determine_priority message cat' is_urgent = ''P0''"
    by (simp add: determine_priority_cases)
  show "determine_priority message cat is_urgent = ''P1''
        \<longleftrightarrow> determine_priority message cat' is_urgent = ''P1''"
    by (simp add: determine_priority_cases)
  show "contains ''outage'' (normalize_text message)
        \<longrightarrow> determine_priority message ''Other'' is_urgent = ''P0''"
    by (simp add: determine_priority_cases)
qed (rule determine_priority_cases)

theorem determine_priority_precedence_witness:
  "contains ''outage'' (normalize_text ''There was an OUTAGE last night'')
   \<and> determine_priority ''There was an OUTAGE last night'' ''Other'' False = ''P0''
   \<and> determine_priority ''please fix this'' ''Technical'' True = ''P1''
   \<and> determine_priority ''invoice question'' ''Billing'' False = ''P2''
   \<and> determine_priority ''hello world'' ''Other'' False = ''P3''"
proof -
  have h: "contains ''outage'' (normalize_text ''There was an OUTAGE last night'')"
    by code_simp
  have "determine_priority ''There was an OUTAGE last night'' ''Other'' False = ''P0''"
    using determine_priority_precedence[of "''There was an OUTAGE last night''" "''Other''" False] h
    by blast
  moreover have "determine_priority ''please fix this'' ''Technical'' True = ''P1''"
    by code_simp
  moreover have "determine_priority ''invoice question'' ''Billing'' False = ''P2''"
    by code_simp
  moreover have "determine_priority ''hello world'' ''Other'' False = ''P3''"
    by code_simp
  ultimately show ?thesis using h by blast
qed

subsection \<open>The override rule in the pipeline\<close>

text \<open>
  Claim C1. For every message whose normalized text contains "refund" or "money back",
  \<open>analyze_ticket\<close> returns a result with category "Billing", and with priority "P1"
  unless the priority of the earlier stages was "P0", which stays; so the priority is P0
  or P1.
\<close>

theorem refund_override:
  assumes "contains ''refund'' (normalize_text message)
         \<or> contains ''money back'' (normalize_text message)"
  shows "\<exists>r c ms. analyze_ticket message = Inr r
           \<and> classify_category message = Inr (c, ms)
           \<and> category r = ''Billing''
           \<and> priority r =
               (if determine_priority message c (fst (detect_urgency message)) = ''P0''
                then ''P0'' else ''P1'')
           \<and> priority r \<in> {''P0'', ''P1''}"
proof -
  obtain c ms where cls: "classify_category message = Inr (c, ms)"
    using classify_category_total by blast
  show ?thesis
    using assms cls
    by (simp add: analyze_ticket_unfold[OF cls] custom_rules_category custom_rules_priority)
qed

theorem refund_override_witness:
  "(contains ''refund'' (normalize_text ''Money  back please: SECURITY breach'')
     \<or> contains ''money back'' (normalize_text ''Money  back please: SECURITY breach''))
   \<and> (\<exists>r c ms. analyze_ticket ''Money  back please: SECURITY breach'' = Inr r
           \<and> classify_category ''Money  back please: SECURITY breach'' = Inr (c, ms)
           \<and> category r = ''Billing''
           \<and> priority r =
               (if determine_priority ''Money  back please: SECURITY breach'' c
                     (fst (detect_urgency ''Money  back please: SECURITY breach'')) = ''P0''
                then ''P0'' else ''P1'')
           \<and> priority r \<in> {''P0'', ''P1''})
   \<and> analyze_ticket ''Money  back please: SECURITY breach'' =
         Inr \<lparr>category = ''Billing'', priority = ''P0'', urgency = False,
              result_keywords = [''money back''], confidence = 64 / 100\<rparr>
   \<and> analyze_ticket ''I need a refund for my order'' =
         Inr \<lparr>category = ''Billing'', priority = ''P1'', urgency = False,
              result_keywords = [''refund''], confidence = 64 / 100\<rparr>"
proof -
  have h: "contains ''refund'' (normalize_text ''Money  back please: SECURITY breach'')
     \<or> contains ''money back'' (normalize_text ''Money  back please: SECURITY breach'')"
    by code_simp
  have v1: "analyze_ticket ''Money  back please: SECURITY breach'' =
         Inr \<lparr>category = ''Billing'', priority = ''P0'', urgency = False,
              result_keywords = [''money back''], confidence = 64 / 100\<rparr>"
    by code_simp
  have v2: "analyze_ticket ''I need a refund for my order'' =
         Inr \<lparr>category = ''Billing'', priority = ''P1'', urgency = False,
              result_keywords = [''refund''], confidence = 64 / 100\<rparr>"
    by code_simp
  from h refund_override[OF h] v1 v2 show ?thesis by (intro conjI)
qed

subsection \<open>Fields the override leaves alone\<close>

text \<open>
  Claim C8. The urgency and the confidence of the final result are the values of the
  stages before the override: the override changes neither field of any result it is
  given, and the confidence stays the one computed from the category and the match lists
  of before the override.
\<close>

theorem override_frame:
  "\<exists>r c ms. analyze_ticket message = Inr r
      \<and> classify_category message = Inr (c, ms)
      \<and> urgency r = fst (detect_urgency message)
      \<and> confidence r = calculate_confidence ms (snd (detect_urgency message)) c
      \<and> urgency (apply_custom_rules message res) = urgency res
      \<and> confidence (apply_custom_rules message res) = confidence res"
proof -
  obtain c ms where cls: "classify_category message = Inr (c, ms)"
    using classify_category_total by blast
  show ?thesis
    using cls
    by (simp add: analyze_ticket_unfold[OF cls] custom_rules_urgency custom_rules_confidence)
qed

theorem override_frame_witness:
  "(\<exists>r c ms. analyze_ticket ''refund: error, bug and crash'' = Inr r
      \<and> classify_category ''refund: error, bug and crash'' = Inr (c, ms)
      \<and> urgency r = fst (detect_urgency ''refund: error, bug and crash'')
      \<and> confidence r =
          calculate_confidence ms (snd (detect_urgency ''refund: error, bug and crash'')) c
      \<and> urgency (apply_custom_rules ''refund: error, bug and crash''
            \<lparr>category = ''Other'', priority = ''P3'', urgency = True,
             result_keywords = [], confidence = 3 / 10\<rparr>) = True
      \<and> confidence (apply_custom_rules ''refund: error, bug and crash''
            \<lparr>category = ''Other'', priority = ''P3'', urgency = True,
             result_keywords = [], confidence = 3 / 10\<rparr>) = 3 / 10)
   \<and> classify_category ''refund: error, bug and crash''
       = Inr (''Technical'', [''error'', ''bug'', ''crash''])
   \<and> analyze_ticket ''refund: error, bug and crash'' =
         Inr \<lparr>category = ''Billing'', priority = ''P1'', urgency = False,
              result_keywords = [''error'', ''bug'', ''crash'', ''refund''],
              confidence = 82 / 100\<rparr>"
proof -
  have v1: "classify_category ''refund: error, bug and crash''
       = Inr (''Technical'', [''error'', ''bug'', ''crash''])"
    by code_simp
  have v2: "analyze_ticket ''refund: error, bug and crash'' =
         Inr \<lparr>category = ''Billing'', priority = ''P1'', urgency = False,
              result_keywords = [''error'', ''bug'', ''crash'', ''refund''],
              confidence = 82 / 100\<rparr>"
    by code_simp
  have "\<exists>r c ms. analyze_ticket ''refund: error, bug and crash'' = Inr r
      \<and> classify_category ''refund: error, bug and crash'' = Inr (c, ms)
      \<and> urgency r = fst (detect_urgency ''refund: error, bug and crash'')
      \<and> confidence r =
          calculate_confidence ms (snd (detect_urgency ''refund: error, bug and crash'')) c
      \<and> urgency (apply_custom_rules ''refund: error, bug and crash''
            \<lparr>category = ''Other'', priority = ''P3'', urgency = True,
             result_keywords = [], confidence = 3 / 10\<rparr>) = True
      \<and> confidence (apply_custom_rules ''refund: error, bug and crash''
            \<lparr>category = ''Other'', priority = ''P3'', urgency = True,
             result_keywords = [], confidence = 3 / 10\<rparr>) = 3 / 10"
    using override_frame[of "''refund: error, bug and crash''"
            "\<lparr>category = ''Other'', priority = ''P3'', urgency = True,
              result_keywords = [], confidence = 3 / 10\<rparr>"]
    by simp
  with v1 v2 show ?thesis by (intro conjI)
qed

subsection \<open>Urgent tickets\<close>

text \<open>
  Claim C9. With \<open>is_urgent\<close> true, \<open>determine_priority\<close> returns P0 or P1 for every
  text and category; so every result of \<open>analyze_ticket\<close> whose urgency is true has
  priority P0 or P1.
\<close>

theorem urgent_priority:
  "determine_priority message cat True \<in> {''P0'', ''P1''}
   \<and> (\<exists>r. analyze_ticket message = Inr r
          \<and> (urgency r \<longrightarrow> priority r \<in> {''P0'', ''P1''}))"
proof
  show "determine_priority message cat True \<in> {''P0'', ''P1''}"
    by (simp add: determine_priority_cases)
next
  obtain c ms where cls: "classify_category message = Inr (c, ms)"
    using classify_category_total by blast
  have "fst (detect_urgency message) \<Longrightarrow>
        determine_priority message c (fst (detect_urgency message)) \<in> {''P0'', ''P1''}"
    by (simp add: determine_priority_cases)
  then show "\<exists>r. analyze_ticket message = Inr r
          \<and> (urgency r \<longrightarrow> priority r \<in> {''P0'', ''P1''})"
    by (auto simp add: analyze_ticket_unfold[OF cls] custom_rules_urgency custom_rules_priority)
qed

theorem urgent_priority_witness:
  "determine_priority ''hello world'' ''Feature'' True = ''P1''
   \<and> (\<exists>r. analyze_ticket ''my payment failed and this is urgent'' = Inr r
          \<and> urgency r \<and> priority r \<in> {''P0'', ''P1''})
   \<and> analyze_ticket ''my payment failed and this is urgent'' =
         Inr \<lparr>category = ''Billing'', priority = ''P1'', urgency = True,
              result_keywords = [''payment'', ''urgent''], confidence = 73 / 100\<rparr>"
proof -
  have v: "analyze_ticket ''my payment failed and this is urgent'' =
         Inr \<lparr>category = ''Billing'', priority = ''P1'', urgency = True,
              result_keywords = [''payment'', ''urgent''], confidence = 73 / 100\<rparr>"
    by code_simp
  have p: "determine_priority ''hello world'' ''Feature'' True = ''P1''"
    by code_simp
  from urgent_priority[of "''my payment failed and this is urgent''" "''Feature''"]
  obtain r where r: "analyze_ticket ''my payment failed and this is urgent'' = Inr r"
    and imp: "urgency r \<longrightarrow> priority r \<in> {''P0'', ''P1''}"
    by blast
  from r v have "urgency r" by auto
  with r imp have "\<exists>r. analyze_ticket ''my payment failed and this is urgent'' = Inr r
          \<and> urgency r \<and> priority r \<in> {''P0'', ''P1''}"
    by blast
  with p v show ?thesis by (intro conjI)
qed

subsection \<open>Facts about the keyword tables\<close>

lemma category_names:
  "(c, kws) \<in> set CATEGORY_KEYWORDS \<Longrightarrow>
     c \<in> {''Billing'', ''Technical'', ''Account'', ''Feature''}"
  by (auto simp: CATEGORY_KEYWORDS_def)

lemma triggers_are_billing_keywords:
  "\<exists>kws. (''Billing'', kws) \<in> set CATEGORY_KEYWORDS \<and> ''refund'' \<in> set kws
          \<and> ''money back'' \<in> set kws"
  by (simp add: CATEGORY_KEYWORDS_def)

lemma matched_keywords_nonempty:
  "kw \<in> set kws \<Longrightarrow> contains kw normalized \<Longrightarrow> matched_keywords kws normalized \<noteq> []"
  by (auto simp: matched_keywords_def filter_empty_conv)

lemma classify_category_some_match:
  assumes "(c', kws) \<in> set CATEGORY_KEYWORDS" and "kw \<in> set kws"
    and "contains kw (normalize_text message)"
    and "classify_category message = Inr (c, ms)"
  shows "c \<noteq> ''Other'' \<and> ms \<noteq> []"
proof -
  have ne: "matched_keywords kws (normalize_text message) \<noteq> []"
    using assms(2,3) by (rule matched_keywords_nonempty)
  from classify_category_result[OF assms(4)] show ?thesis
  proof
    assume other: "c = ''Other'' \<and> ms = []"
    from classify_category_cases[of message] assms(4) other
    have "\<forall>(c, kws)\<in>set CATEGORY_KEYWORDS. matched_keywords kws (normalize_text message) = []"
      by auto
    with assms(1) ne show ?thesis by blast
  next
    assume "\<exists>kws. (c, kws) \<in> set CATEGORY_KEYWORDS
             \<and> ms = matched_keywords kws (normalize_text message) \<and> ms \<noteq> []"
    then obtain k where "(c, k) \<in> set CATEGORY_KEYWORDS" and "ms \<noteq> []" by blast
    with category_names[of c k] show ?thesis by auto
  qed
qed

lemma confidence_range:
  "3 / 10 \<le> calculate_confidence mk uk cat \<and> calculate_confidence mk uk cat \<le> 1
   \<and> (\<exists>k::int. calculate_confidence mk uk cat = of_int k / 100)"
proof (cases "length mk + length uk = 0")
  case True
  have "(3 / 10 :: rat) = of_int 30 / 100" by simp
  then have "\<exists>k::int. (3 / 10 :: rat) = of_int k / 100" by (rule exI)
  then show ?thesis unfolding confidence_no_match[OF True] by simp
next
  case False
  then have pos: "0 < length mk + length uk" by simp
  define k where "k = 9 * int (min (length mk + length uk) 5) + (if cat \<noteq> ''Other'' then 55 else 50)"
  have cf: "calculate_confidence mk uk cat = of_int k / 100"
    unfolding k_def by (rule confidence_closed_form[OF pos])
  have m5: "9 * int (min (length mk + length uk) 5) \<le> 45" by simp
  have "k = 9 * int (min (length mk + length uk) 5) + 55
      \<or> k = 9 * int (min (length mk + length uk) 5) + 50"
    by (simp add: k_def)
  with m5 have "30 \<le> k" "k \<le> 100" by linarith+
  then have "(of_int 30 :: rat) \<le> of_int k" "(of_int k :: rat) \<le> of_int 100"
    by (simp_all only: of_int_le_iff)
  then have "(3 / 10 :: rat) \<le> of_int k / 100" "(of_int k / 100 :: rat) \<le> 1" by simp_all
  then show ?thesis unfolding cf by blast
qed

lemma confidence_matched_floor:
  assumes "ms \<noteq> []" and "c \<noteq> ''Other''"
  shows "64 / 100 \<le> calculate_confidence ms us c"
proof -
  have pos: "0 < length ms + length us" using assms(1) by simp
  then have "1 \<le> min (length ms + length us) 5" by linarith
  then have "(64::int) \<le> 9 * int (min (length ms + length us) 5) + 55" by simp
  then have "(of_int 64 :: rat) \<le> of_int (9 * int (min (length ms + length us) 5) + 55)"
    by (simp only: of_int_le_iff)
  then have "(64 / 100 :: rat) \<le> of_int (9 * int (min (length ms + length us) 5) + 55) / 100"
    by simp
  moreover have "calculate_confidence ms us c
                   = of_int (9 * int (min (length ms + length us) 5) + 55) / 100"
    using confidence_closed_form[OF pos, of c] assms(2) by simp
  ultimately show ?thesis by (simp only:)
qed

subsection \<open>Invariants of the result\<close>

text \<open>
  Claim C5. For every input string, \<open>analyze_ticket\<close> returns a result whose confidence
  lies in [0.3, 1.0] and is rounded to two decimal places (a whole number of hundredths,
  left unchanged by \<open>round(_, 2)\<close>), whose category is one of Billing, Technical, Account,
  Feature, Other, and whose priority is one of P0, P1, P2, P3.
\<close>

theorem analyze_ticket_invariants:
  "\<exists>r. analyze_ticket message = Inr r
      \<and> 3 / 10 \<le> confidence r \<and> confidence r \<le> 1
      \<and> (\<exists>k::int. confidence r = of_int k / 100)
      \<and> py_round2 (confidence r) = confidence r
      \<and> category r \<in> {''Billing'', ''Technical'', ''Account'', ''Feature'', ''Other''}
      \<and> priority r \<in> {''P0'', ''P1'', ''P2'', ''P3''}"
proof -
  obtain c ms where cls: "classify_category message = Inr (c, ms)"
    using classify_category_total by blast
  define us where "us = snd (detect_urgency message)"
  have cat: "c \<in> {''Billing'', ''Technical'', ''Account'', ''Feature'', ''Other''}"
    using classify_category_result[OF cls] category_names[of c] by auto
  from confidence_range[of ms us c] obtain k :: int where
    lo: "3 / 10 \<le> calculate_confidence ms us c" and hi: "calculate_confidence ms us c \<le> 1"
    and k: "calculate_confidence ms us c = of_int k / 100" by blast
  have rnd: "py_round2 (calculate_confidence ms us c) = calculate_confidence ms us c"
    unfolding k by (rule py_round2_hundredths)
  have kk: "\<exists>k::int. calculate_confidence ms us c = of_int k / 100" using k by blast
  have prio: "determine_priority message c u \<in> {''P0'', ''P1'', ''P2'', ''P3''}" for u
    by (simp add: determine_priority_cases)
  show ?thesis
    using cat lo hi kk rnd prio[of "fst (detect_urgency message)"]
    by (simp add: analyze_ticket_unfold[OF cls] us_def[symmetric] custom_rules_confidence
          custom_rules_category custom_rules_priority)
qed

theorem analyze_ticket_invariants_witness:
  "(\<exists>r. analyze_ticket [] = Inr r
      \<and> 3 / 10 \<le> confidence r \<and> confidence r \<le> 1
      \<and> (\<exists>k::int. confidence r = of_int k / 100)
      \<and> py_round2 (confidence r) = confidence r
      \<and> category r \<in> {''Billing'', ''Technical'', ''Account'', ''Feature'', ''Other''}
      \<and> priority r \<in> {''P0'', ''P1'', ''P2'', ''P3''})
   \<and> analyze_ticket [] =
         Inr \<lparr>category = ''Other'', priority = ''P3'', urgency = False,
              result_keywords = [], confidence = 3 / 10\<rparr>
   \<and> analyze_ticket ''URGENT: login error, password bug, crash ASAP - escalate'' =
         Inr \<lparr>category = ''Technical'', priority = ''P1'', urgency = True,
              result_keywords = [''error'', ''bug'', ''crash'', ''urgent'', ''asap'', ''escalate''],
              confidence = 1\<rparr>"
proof -
  have v1: "analyze_ticket [] =
         Inr \<lparr>category = ''Other'', priority = ''P3'', urgency = False,
              result_keywords = [], confidence = 3 / 10\<rparr>"
    by code_simp
  have v2: "analyze_ticket ''URGENT: login error, password bug, crash ASAP - escalate'' =
         Inr \<lparr>category = ''Technical'', priority = ''P1'', urgency = True,
              result_keywords = [''error'', ''bug'', ''crash'', ''urgent'', ''asap'', ''escalate''],
              confidence = 1\<rparr>"
    by code_simp
  from analyze_ticket_invariants[of "[]"] v1 v2 show ?thesis by (intro conjI)
qed

subsection \<open>Override-triggered messages are never unmatched\<close>

text \<open>
  Claim C10. For every message whose normalized text contains "refund" or "money back",
  the category of the Category Scorer before the override is not "Other" (both phrases
  are Billing keywords), and the final confidence is at least 0.64: the floor 0.3 is not
  reached.
\<close>

theorem refund_confidence_floor:
  assumes "contains ''refund'' (normalize_text message)
         \<or> contains ''money back'' (normalize_text message)"
  shows "\<exists>r c ms. analyze_ticket message = Inr r
           \<and> classify_category message = Inr (c, ms)
           \<and> c \<noteq> ''Other''
           \<and> 64 / 100 \<le> confidence r
           \<and> confidence r \<noteq> 3 / 10"
proof -
  obtain c ms where cls: "classify_category message = Inr (c, ms)"
    using classify_category_total by blast
  obtain kws where bk: "(''Billing'', kws) \<in> set CATEGORY_KEYWORDS"
    and t1: "''refund'' \<in> set kws" and t2: "''money back'' \<in> set kws"
    using triggers_are_billing_keywords by blast
  from assms have m: "c \<noteq> ''Other'' \<and> ms \<noteq> []"
  proof
    assume "contains ''refund'' (normalize_text message)"
    from classify_category_some_match[OF bk t1 this cls] show ?thesis .
  next
    assume "contains ''money back'' (normalize_text message)"
    from classify_category_some_match[OF bk t2 this cls] show ?thesis .
  qed
  then have fl: "64 / 100 \<le> calculate_confidence ms (snd (detect_urgency message)) c"
    by (intro confidence_matched_floor) simp_all
  then have ne: "calculate_confidence ms (snd (detect_urgency message)) c \<noteq> 3 / 10"
    by auto
  show ?thesis
    using cls m fl ne
    by (simp add: analyze_ticket_unfold[OF cls] custom_rules_confidence)
qed

theorem refund_confidence_floor_witness:
  "(contains ''refund'' (normalize_text ''Refund  me'')
      \<or> contains ''money back'' (normalize_text ''Refund  me''))
   \<and> (\<exists>r c ms. analyze_ticket ''Refund  me'' = Inr r
           \<and> classify_category ''Refund  me'' = Inr (c, ms)
           \<and> c \<noteq> ''Other''
           \<and> 64 / 100 \<le> confidence r
           \<and> confidence r \<noteq> 3 / 10)
   \<and> classify_category ''Refund  me'' = Inr (''Billing'', [''refund''])
   \<and> analyze_ticket ''Refund  me'' =
         Inr \<lparr>category = ''Billing'', priority = ''P1'', urgency = False,
              result_keywords = [''refund''], confidence = 64 / 100\<rparr>"
proof -
  have h: "contains ''refund'' (normalize_text ''Refund  me'')
      \<or> contains ''money back'' (normalize_text ''Refund  me'')"
    by code_simp
  have v1: "classify_category ''Refund  me'' = Inr (''Billing'', [''refund''])"
    by code_simp
  have v2: "analyze_ticket ''Refund  me'' =
         Inr \<lparr>category = ''Billing'', priority = ''P1'', urgency = False,
              result_keywords = [''refund''], confidence = 64 / 100\<rparr>"
    by code_simp
  from h refund_confidence_floor[OF h] v1 v2 show ?thesis by (intro conjI)
qed

subsection \<open>The category scorer\<close>

lemma category_order:
  "map fst CATEGORY_KEYWORDS = [''Billing'', ''Technical'', ''Account'', ''Feature'']"
  by (simp add: CATEGORY_KEYWORDS_def)

lemma matched_keywords_empty_iff:
  "matched_keywords kws normalized = [] \<longleftrightarrow> (\<forall>kw\<in>set kws. \<not> contains kw normalized)"
  by (simp add: matched_keywords_def filter_empty_conv)

text \<open>
  Claim C2. \<open>classify_category\<close> returns \<open>("Other", [])\<close> when no category keyword occurs
  in the normalized text. Otherwise it returns a category of the table together with its
  matched keywords, such that no category has more matches, and every category declared
  before it has strictly fewer: among the categories with the maximal count the first in
  the declaration order Billing, Technical, Account, Feature wins. In particular
  "payment invoice error" is Billing, with the two matches payment and invoice.
\<close>

theorem classify_category_first_max:
  "map fst CATEGORY_KEYWORDS = [''Billing'', ''Technical'', ''Account'', ''Feature'']
   \<and> ((\<forall>(c, kws)\<in>set CATEGORY_KEYWORDS. \<forall>kw\<in>set kws. \<not> contains kw (normalize_text message))
        \<longrightarrow> classify_category message = Inr (''Other'', []))
   \<and> ((\<exists>(c, kws)\<in>set CATEGORY_KEYWORDS. \<exists>kw\<in>set kws. contains kw (normalize_text message))
        \<longrightarrow> (\<exists>pre c kws post.
               CATEGORY_KEYWORDS = pre @ (c, kws) # post
             \<and> classify_category message
                 = Inr (c, filter (\<lambda>kw. contains kw (normalize_text message)) kws)
             \<and> (\<forall>(c', kws')\<in>set pre.
                   length (filter (\<lambda>kw. contains kw (normalize_text message)) kws')
                   < length (filter (\<lambda>kw. contains kw (normalize_text message)) kws))
             \<and> (\<forall>(c', kws')\<in>set post.
                   length (filter (\<lambda>kw. contains kw (normalize_text message)) kws')
                   \<le> length (filter (\<lambda>kw. contains kw (normalize_text message)) kws))))
   \<and> classify_category ''payment invoice error'' = Inr (''Billing'', [''payment'', ''invoice''])"
proof (intro conjI impI)
  show "map fst CATEGORY_KEYWORDS = [''Billing'', ''Technical'', ''Account'', ''Feature'']"
    by (rule category_order)
next
  assume none: "\<forall>(c, kws)\<in>set CATEGORY_KEYWORDS. \<forall>kw\<in>set kws. \<not> contains kw (normalize_text message)"
  obtain c ms where cls: "classify_category message = Inr (c, ms)"
    using classify_category_total by blast
  from classify_category_result[OF cls] show "classify_category message = Inr (''Other'', [])"
  proof
    assume "c = ''Other'' \<and> ms = []"
    with cls show ?thesis by simp
  next
    assume "\<exists>kws. (c, kws) \<in> set CATEGORY_KEYWORDS
              \<and> ms = matched_keywords kws (normalize_text message) \<and> ms \<noteq> []"
    then obtain kws where "(c, kws) \<in> set CATEGORY_KEYWORDS"
      and "matched_keywords kws (normalize_text message) \<noteq> []" by blast
    with none show ?thesis by (auto simp: matched_keywords_empty_iff)
  qed
next
  assume some: "\<exists>(c, kws)\<in>set CATEGORY_KEYWORDS. \<exists>kw\<in>set kws. contains kw (normalize_text message)"
  then have "\<not> (\<forall>(c, kws)\<in>set CATEGORY_KEYWORDS. matched_keywords kws (normalize_text message) = [])"
    by (auto simp: matched_keywords_empty_iff)
  with classify_category_cases[of message]
  show "\<exists>pre c kws post.
               CATEGORY_KEYWORDS = pre @ (c, kws) # post
             \<and> classify_category message
                 = Inr (c, filter (\<lambda>kw. contains kw (normalize_text message)) kws)
             \<and> (\<forall>(c', kws')\<in>set pre.
                   length (filter (\<lambda>kw. contains kw (normalize_text message)) kws')
                   < length (filter (\<lambda>kw. contains kw (normalize_text message)) kws))
             \<and> (\<forall>(c', kws')\<in>set post.
                   length (filter (\<lambda>kw. contains kw (normalize_text message)) kws')
                   \<le> length (filter (\<lambda>kw. contains kw (normalize_text message)) kws))"
    unfolding matched_keywords_def by blast
next
  show "classify_category ''payment invoice error'' = Inr (''Billing'', [''payment'', ''invoice''])"
    by code_simp
qed

theorem classify_category_first_max_witness:
  "classify_category ''hello there, good morning'' = Inr (''Other'', [])
   \<and> (\<exists>(c, kws)\<in>set CATEGORY_KEYWORDS. \<exists>kw\<in>set kws. contains kw (normalize_text ''Login ERROR''))
   \<and> (\<exists>pre c kws post.
         CATEGORY_KEYWORDS = pre @ (c, kws) # post
       \<and> classify_category ''Login ERROR''
           = Inr (c, filter (\<lambda>kw. contains kw (normalize_text ''Login ERROR'')) kws)
       \<and> (\<forall>(c', kws')\<in>set pre.
             length (filter (\<lambda>kw. contains kw (normalize_text ''Login ERROR'')) kws')
             < length (filter (\<lambda>kw. contains kw (normalize_text ''Login ERROR'')) kws))
       \<and> (\<forall>(c', kws')\<in>set post.
             length (filter (\<lambda>kw. contains kw (normalize_text ''Login ERROR'')) kws')
             \<le> length (filter (\<lambda>kw. contains kw (normalize_text ''Login ERROR'')) kws)))
   \<and> classify_category ''Login ERROR'' = Inr (''Technical'', [''error''])
   \<and> classify_category ''error in payment'' = Inr (''Billing'', [''payment''])"
proof -
  have h1: "\<forall>(c, kws)\<in>set CATEGORY_KEYWORDS. \<forall>kw\<in>set kws.
              \<not> contains kw (normalize_text ''hello there, good morning'')"
    by code_simp
  have h2: "\<exists>(c, kws)\<in>set CATEGORY_KEYWORDS. \<exists>kw\<in>set kws.
              contains kw (normalize_text ''Login ERROR'')"
    by code_simp
  have v1: "classify_category ''Login ERROR'' = Inr (''Technical'', [''error''])"
    by code_simp
  have v2: "classify_category ''error in payment'' = Inr (''Billing'', [''payment''])"
    by code_simp
  from classify_category_first_max[of "''hello there, good morning''"] h1
  have a: "classify_category ''hello there, good morning'' = Inr (''Other'', [])"
    by blast
  from classify_category_first_max[of "''Login ERROR''"] h2
  have b: "\<exists>pre c kws post.
         CATEGORY_KEYWORDS = pre @ (c, kws) # post
       \<and> classify_category ''Login ERROR''
           = Inr (c, filter (\<lambda>kw. contains kw (normalize_text ''Login ERROR'')) kws)
       \<and> (\<forall>(c', kws')\<in>set pre.
             length (filter (\<lambda>kw. contains kw (normalize_text ''Login ERROR'')) kws')
             < length (filter (\<lambda>kw. contains kw (normalize_text ''Login ERROR'')) kws))
       \<and> (\<forall>(c', kws')\<in>set post.
             length (filter (\<lambda>kw. contains kw (normalize_text ''Login ERROR'')) kws')
             \<le> length (filter (\<lambda>kw. contains kw (normalize_text ''Login ERROR'')) kws))"
    by blast
  from a h2 b v1 v2 show ?thesis by (intro conjI)
qed

subsection \<open>The keyword list of the result\<close>

lemma fold_fromkeys:
  assumes "distinct xs" and "set xs \<inter> fst ` set d = {}"
  shows "map fst (fold (\<lambda>k d. AList.update k () d) xs d) = map fst d @ xs"
  using assms
proof (induction xs arbitrary: d)
  case Nil
  show ?case by simp
next
  case (Cons x xs)
  from Cons.prems have fresh: "x \<notin> fst ` set d" and d: "distinct xs" and x: "x \<notin> set xs"
    and disj: "set xs \<inter> fst ` set d = {}" by auto
  have "set xs \<inter> fst ` set (d @ [(x, ())]) = {}" using disj x by auto
  from Cons.IH[OF d this] fresh show ?case by (simp add: update_fresh)
qed

lemma dict_fromkeys_distinct: "distinct xs \<Longrightarrow> dict_keys (dict_fromkeys xs) = xs"
  using fold_fromkeys[of xs "[]"] by (simp add: dict_keys_def dict_fromkeys_def)

lemma keyword_tables_distinct:
  "distinct URGENCY_KEYWORDS
   \<and> (\<forall>(c, kws)\<in>set CATEGORY_KEYWORDS. distinct kws \<and> set kws \<inter> set URGENCY_KEYWORDS = {})"
  by code_simp

lemma matched_lists_distinct:
  assumes "classify_category message = Inr (c, ms)"
  shows "distinct (ms @ snd (detect_urgency message))"
proof -
  have us: "snd (detect_urgency message) = matched_keywords URGENCY_KEYWORDS (normalize_text message)"
    by (simp add: detect_urgency_def Let_def)
  have du: "distinct (matched_keywords URGENCY_KEYWORDS (normalize_text message))"
    using keyword_tables_distinct by (simp add: matched_keywords_def)
  from classify_category_result[OF assms] show ?thesis
  proof
    assume "c = ''Other'' \<and> ms = []"
    with du us show ?thesis by simp
  next
    assume "\<exists>kws. (c, kws) \<in> set CATEGORY_KEYWORDS
              \<and> ms = matched_keywords kws (normalize_text message) \<and> ms \<noteq> []"
    then obtain kws where k: "(c, kws) \<in> set CATEGORY_KEYWORDS"
      and ms: "ms = matched_keywords kws (normalize_text message)" by blast
    from k keyword_tables_distinct have "distinct kws" "set kws \<inter> set URGENCY_KEYWORDS = {}"
      by auto
    then show ?thesis using du unfolding us ms by (auto simp: matched_keywords_def)
  qed
qed

text \<open>
  Claim C7. The keyword list of the result has no duplicates and is, in this order: the
  matched triggers of the winning category (in the order of that category's keyword
  list), the matched urgency triggers (in the order of the urgency list), and the
  override triggers present in the normalized text that are not yet in the list.
\<close>

theorem result_keywords_order:
  "\<exists>r c ms us. analyze_ticket message = Inr r
      \<and> classify_category message = Inr (c, ms)
      \<and> (c = ''Other'' \<and> ms = []
          \<or> (\<exists>kws. (c, kws) \<in> set CATEGORY_KEYWORDS
                \<and> ms = filter (\<lambda>kw. contains kw (normalize_text message)) kws))
      \<and> detect_urgency message = (us \<noteq> [], us)
      \<and> us = filter (\<lambda>kw. contains kw (normalize_text message)) URGENCY_KEYWORDS
      \<and> result_keywords r =
          ms @ us @ filter (\<lambda>trigger. contains trigger (normalize_text message)
                                      \<and> trigger \<notin> set (ms @ us)) CUSTOM_BILLING_TRIGGERS
      \<and> distinct (result_keywords r)"
proof -
  obtain c ms where cls: "classify_category message = Inr (c, ms)"
    using classify_category_total by blast
  define us where "us = filter (\<lambda>kw. contains kw (normalize_text message)) URGENCY_KEYWORDS"
  have du: "detect_urgency message = (us \<noteq> [], us)"
    by (simp add: detect_urgency_def Let_def matched_keywords_def us_def)
  have dist: "distinct (ms @ us)" using matched_lists_distinct[OF cls] du by simp
  have shape: "c = ''Other'' \<and> ms = []
          \<or> (\<exists>kws. (c, kws) \<in> set CATEGORY_KEYWORDS
                \<and> ms = filter (\<lambda>kw. contains kw (normalize_text message)) kws)"
    using classify_category_result[OF cls] unfolding matched_keywords_def by blast
  define r where "r = apply_custom_rules message
            \<lparr>category = c,
             priority = determine_priority message c (fst (detect_urgency message)),
             urgency = fst (detect_urgency message),
             result_keywords = dict_keys (dict_fromkeys (ms @ snd (detect_urgency message))),
             confidence = calculate_confidence ms (snd (detect_urgency message)) c\<rparr>"
  have an: "analyze_ticket message = Inr r"
    unfolding r_def by (rule analyze_ticket_unfold[OF cls])
  have kw: "result_keywords r =
          ms @ us @ filter (\<lambda>trigger. contains trigger (normalize_text message)
                                      \<and> trigger \<notin> set (ms @ us)) CUSTOM_BILLING_TRIGGERS"
    using dist unfolding r_def custom_rules_keywords du
    by (simp add: dict_fromkeys_distinct)
  have "distinct CUSTOM_BILLING_TRIGGERS" by (simp add: CUSTOM_BILLING_TRIGGERS_def)
  then have "distinct (filter (\<lambda>trigger. contains trigger (normalize_text message)
                                      \<and> trigger \<notin> set (ms @ us)) CUSTOM_BILLING_TRIGGERS)"
    by (rule distinct_filter)
  with dist have "distinct (result_keywords r)" unfolding kw by auto
  with an cls shape du kw show ?thesis unfolding us_def[symmetric] by blast
qed

theorem result_keywords_order_witness:
  "(\<exists>r c ms us. analyze_ticket ''URGENT refund: error, bug and crash'' = Inr r
      \<and> classify_category ''URGENT refund: error, bug and crash'' = Inr (c, ms)
      \<and> (c = ''Other'' \<and> ms = []
          \<or> (\<exists>kws. (c, kws) \<in> set CATEGORY_KEYWORDS
                \<and> ms = filter (\<lambda>kw. contains kw
                              (normalize_text ''URGENT refund: error, bug and crash'')) kws))
      \<and> detect_urgency ''URGENT refund: error, bug and crash'' = (us \<noteq> [], us)
      \<and> us = filter (\<lambda>kw. contains kw
                   (normalize_text ''URGENT refund: error, bug and crash'')) URGENCY_KEYWORDS
      \<and> result_keywords r =
          ms @ us @ filter (\<lambda>trigger.
                        contains trigger (normalize_text ''URGENT refund: error, bug and crash'')
                        \<and> trigger \<notin> set (ms @ us)) CUSTOM_BILLING_TRIGGERS
      \<and> distinct (result_keywords r))
   \<and> analyze_ticket ''URGENT refund: error, bug and crash'' =
         Inr \<lparr>category = ''Billing'', priority = ''P1'', urgency = True,
              result_keywords = [''error'', ''bug'', ''crash'', ''urgent'', ''refund''],
              confidence = 91 / 100\<rparr>
   \<and> analyze_ticket ''refund my payment, money back asap'' =
         Inr \<lparr>category = ''Billing'', priority = ''P1'', urgency = True,
              result_keywords = [''payment'', ''refund'', ''money back'', ''asap''],
              confidence = 91 / 100\<rparr>"
proof -
  have v1: "analyze_ticket ''URGENT refund: error, bug and crash'' =
         Inr \<lparr>category = ''Billing'', priority = ''P1'', urgency = True,
              result_keywords = [''error'', ''bug'', ''crash'', ''urgent'', ''refund''],
              confidence = 91 / 100\<rparr>"
    by code_simp
  have v2: "analyze_ticket ''refund my payment, money back asap'' =
         Inr \<lparr>category = ''Billing'', priority = ''P1'', urgency = True,
              result_keywords = [''payment'', ''refund'', ''money back'', ''asap''],
              confidence = 91 / 100\<rparr>"
    by code_simp
  from result_keywords_order[of "''URGENT refund: error, bug and crash''"] v1 v2
  show ?thesis by (intro conjI)
qed

end
